theory Spec2Isabelle
  imports Complex_Main "HOL-Library.Sublist" "HOL-Library.Log_Nat" "HOL-Library.AList"
begin

section \<open>Python strings\<close>

text \<open>
  A Python \<open>str\<close> is modelled as a \<open>string\<close> whose characters are the code points
  below 256. The character classes below are those of \<open>str.isspace\<close> and of the line
  boundaries of \<open>str.splitlines\<close>, restricted to that range.
\<close>

definition isspace :: "char \<Rightarrow> bool" where
  "isspace c = (let n = (of_char c :: nat) in
     (9 \<le> n \<and> n \<le> 13) \<or> (28 \<le> n \<and> n \<le> 32) \<or> n = 133 \<or> n = 160)"

definition is_linebreak :: "char \<Rightarrow> bool" where
  "is_linebreak c = (let n = (of_char c :: nat) in
     (10 \<le> n \<and> n \<le> 13) \<or> (28 \<le> n \<and> n \<le> 30) \<or> n = 133)"

text \<open>\<open>s.splitlines()\<close>: \<open>cur\<close> is the line being read; CR LF is one boundary.\<close>

fun splitlines_from :: "string \<Rightarrow> string \<Rightarrow> string list" where
  "splitlines_from cur [] = (if cur = [] then [] else [cur])"
| "splitlines_from cur (c # cs) =
     (if is_linebreak c then
        (case cs of
           d # ds \<Rightarrow> if c = CHR 0x0D \<and> d = CHR 0x0A
                     then cur # splitlines_from [] ds
                     else cur # splitlines_from [] cs
         | [] \<Rightarrow> cur # splitlines_from [] cs)
      else splitlines_from (cur @ [c]) cs)"

definition splitlines :: "string \<Rightarrow> string list" where
  "splitlines s = splitlines_from [] s"

text \<open>\<open>s.split()\<close>: the maximal runs of non-whitespace characters.\<close>

function split :: "string \<Rightarrow> string list" where
  "split s =
     (case dropWhile isspace s of
        [] \<Rightarrow> []
      | c # cs \<Rightarrow> takeWhile (\<lambda>x. \<not> isspace x) (c # cs)
                 # split (dropWhile (\<lambda>x. \<not> isspace x) cs))"
  by pat_completeness auto
termination
proof (relation "measure length")
  show "wf (measure length)" by simp
next
  fix s :: string and c cs
  assume "dropWhile isspace s = c # cs"
  then have "length (c # cs) \<le> length s"
    by (metis length_dropWhile_le)
  moreover have "length (dropWhile (\<lambda>x. \<not> isspace x) cs) \<le> length cs"
    by (rule length_dropWhile_le)
  ultimately show "(dropWhile (\<lambda>x. \<not> isspace x) cs, s) \<in> measure length"
    by simp
qed

declare split.simps [simp del]

definition strip :: "string \<Rightarrow> string" where
  "strip s = rev (dropWhile isspace (rev (dropWhile isspace s)))"

definition startswith :: "string \<Rightarrow> string \<Rightarrow> bool" where
  "startswith s p = prefix p s"

definition endswith :: "string \<Rightarrow> string \<Rightarrow> bool" where
  "endswith s p = suffix p s"

text \<open>\<open>sub in s\<close>.\<close>

fun contains :: "string \<Rightarrow> string \<Rightarrow> bool" where
  "contains [] sub = (sub = [])"
| "contains (c # cs) sub = (prefix sub (c # cs) \<or> contains cs sub)"

text \<open>\<open>s.replace(old, new)\<close>: the non-overlapping occurrences, from the left.\<close>

fun replace_nonempty :: "string \<Rightarrow> string \<Rightarrow> string \<Rightarrow> string" where
  "replace_nonempty old new [] = []"
| "replace_nonempty old new (c # cs) =
     (if prefix old (c # cs)
      then new @ replace_nonempty old new (drop (length old - 1) cs)
      else c # replace_nonempty old new cs)"

definition replace :: "string \<Rightarrow> string \<Rightarrow> string \<Rightarrow> string" where
  "replace s old new =
     (if old = [] then new @ concat (map (\<lambda>c. c # new) s)
      else replace_nonempty old new s)"

text \<open>\<open>s.split(sep)\<close> for a separator of one character; the result is never empty.\<close>

fun split_sep :: "string \<Rightarrow> char \<Rightarrow> string list" where
  "split_sep [] sep = [[]]"
| "split_sep (c # cs) sep =
     (if c = sep then [] # split_sep cs sep
      else (case split_sep cs sep of
              x # xs \<Rightarrow> (c # x) # xs
            | [] \<Rightarrow> [[c]]))"

section \<open>Python numbers\<close>

datatype py_error =
  ValueError | ZeroDivisionError | StatisticsError | IndexError | KeyError

text \<open>
  A Python \<open>float\<close> is an IEEE 754 binary64 value: a finite value is carried as the
  rational it denotes, next to the two infinities and NaN. The sign of zero is not
  modelled (\<open>-0.0 == 0.0\<close> in Python).
\<close>

datatype pyfloat = Fin rat | PInf | NInf | NaN

definition pow2 :: "int \<Rightarrow> rat" where
  "pow2 e = (if 0 \<le> e then 2 ^ nat e else 1 / 2 ^ nat (- e))"

definition pow10 :: "int \<Rightarrow> rat" where
  "pow10 e = (if 0 \<le> e then 10 ^ nat e else 1 / 10 ^ nat (- e))"

text \<open>\<open>ilog2 q\<close> is \<open>\<lfloor>log\<^sub>2 q\<rfloor>\<close> for \<open>q > 0\<close>.\<close>

definition ilog2 :: "rat \<Rightarrow> int" where
  "ilog2 q = (let (a, b) = quotient_of q; k = bitlen a - bitlen b
              in if pow2 k \<le> q then k else k - 1)"

definition round_half_even :: "rat \<Rightarrow> int" where
  "round_half_even x =
     (let f = \<lfloor>x\<rfloor>; d = x - of_int f
      in if d < 1 / 2 then f
         else if 1 / 2 < d then f + 1
         else if even f then f else f + 1)"

text \<open>
  \<open>fl q\<close> rounds the exact value \<open>q\<close> to binary64, to nearest with ties to even:
  53 significant bits, least exponent \<open>-1022\<close> (gradual underflow), overflow to infinity.
\<close>

definition fl :: "rat \<Rightarrow> pyfloat" where
  "fl q =
     (if q = 0 then Fin 0
      else let u = pow2 (max (ilog2 \<bar>q\<bar>) (- 1022) - 52);
               r = of_int (round_half_even (q / u)) * u
           in if pow2 1024 \<le> \<bar>r\<bar> then (if 0 < q then PInf else NInf) else Fin r)"

text \<open>\<open>x + y\<close> on floats.\<close>

fun fadd :: "pyfloat \<Rightarrow> pyfloat \<Rightarrow> pyfloat" where
  "fadd (Fin a) (Fin b) = fl (a + b)"
| "fadd NaN _ = NaN"
| "fadd _ NaN = NaN"
| "fadd PInf NInf = NaN"
| "fadd NInf PInf = NaN"
| "fadd PInf _ = PInf"
| "fadd _ PInf = PInf"
| "fadd NInf _ = NInf"
| "fadd _ NInf = NInf"

text \<open>\<open>x / n\<close> for a float \<open>x\<close> and an \<open>int\<close> \<open>n \<ge> 0\<close> (a length, or the literal 2).\<close>

definition fdiv :: "pyfloat \<Rightarrow> nat \<Rightarrow> py_error + pyfloat" where
  "fdiv x n =
     (if n = 0 then Inl ZeroDivisionError
      else Inr (case x of Fin a \<Rightarrow> fl (a / of_nat n) | _ \<Rightarrow> x))"

text \<open>\<open>x < y\<close> on floats: every comparison with NaN is false.\<close>

fun flt :: "pyfloat \<Rightarrow> pyfloat \<Rightarrow> bool" where
  "flt (Fin a) (Fin b) = (a < b)"
| "flt NaN _ = False"
| "flt _ NaN = False"
| "flt NInf NInf = False"
| "flt NInf _ = True"
| "flt _ NInf = False"
| "flt PInf _ = False"
| "flt _ PInf = True"

text \<open>\<open>x <= y\<close> on floats.\<close>

definition fle :: "pyfloat \<Rightarrow> pyfloat \<Rightarrow> bool" where
  "fle x y = (x \<noteq> NaN \<and> y \<noteq> NaN \<and> \<not> flt y x)"

text \<open>
  \<open>round(x, 3)\<close>: the decimal with three fractional digits nearest to the exact value of
  \<open>x\<close> (ties to even), converted back to a float; infinities and NaN round to themselves.
\<close>

definition round3 :: "pyfloat \<Rightarrow> pyfloat" where
  "round3 x = (case x of Fin a \<Rightarrow> fl (of_int (round_half_even (a * 1000)) / 1000) | _ \<Rightarrow> x)"

subsection \<open>Literals: \<open>int(s)\<close> and \<open>float(s)\<close>\<close>

definition is_digit :: "char \<Rightarrow> bool" where
  "is_digit c = (let n = (of_char c :: nat) in 48 \<le> n \<and> n \<le> 57)"

definition digit_val :: "char \<Rightarrow> nat" where
  "digit_val c = of_char c - 48"

text \<open>A run of digits, single underscores allowed between two digits.\<close>

fun digitpart :: "string \<Rightarrow> nat list option" where
  "digitpart [] = None"
| "digitpart [c] = (if is_digit c then Some [digit_val c] else None)"
| "digitpart (c # d # cs) =
     (if is_digit c
      then map_option ((#) (digit_val c))
             (if d = CHR ''_'' then digitpart cs else digitpart (d # cs))
      else None)"

definition digits_val :: "nat list \<Rightarrow> int" where
  "digits_val ds = foldl (\<lambda>n d. 10 * n + int d) 0 ds"

text \<open>An optional sign: whether it is a minus, and the rest.\<close>

fun sign_of :: "string \<Rightarrow> bool \<times> string" where
  "sign_of [] = (False, [])"
| "sign_of (c # cs) =
     (if c = CHR ''-'' then (True, cs)
      else if c = CHR ''+'' then (False, cs)
      else (False, c # cs))"

text \<open>\<open>int(s)\<close> in base 10; \<open>None\<close> is \<open>ValueError\<close>. The interpreter's limit on the
  number of digits of a literal is not modelled.\<close>

definition py_int :: "string \<Rightarrow> int option" where
  "py_int s =
     (let (neg, u) = sign_of (strip s)
      in map_option (\<lambda>ds. if neg then - digits_val ds else digits_val ds)
           (digitpart u))"

definition to_lower :: "char \<Rightarrow> char" where
  "to_lower c = (let n = (of_char c :: nat) in
     if 65 \<le> n \<and> n \<le> 90 then char_of (n + 32) else c)"

definition is_exp_mark :: "char \<Rightarrow> bool" where
  "is_exp_mark c = (c = CHR ''e'' \<or> c = CHR ''E'')"

text \<open>The exponent part, marker included; absent is exponent 0.\<close>

definition exponent_of :: "string \<Rightarrow> int option" where
  "exponent_of r =
     (case r of
        [] \<Rightarrow> Some 0
      | _ # t \<Rightarrow> (let (neg, u) = sign_of t
                  in map_option (\<lambda>ds. if neg then - digits_val ds else digits_val ds)
                       (digitpart u)))"

text \<open>The mantissa \<open>digits [. digits]\<close> or \<open>. digits\<close>, as an exact rational.\<close>

definition mantissa_of :: "string \<Rightarrow> rat option" where
  "mantissa_of m =
     (let ip = takeWhile (\<lambda>c. c \<noteq> CHR ''.'') m;
          fr = dropWhile (\<lambda>c. c \<noteq> CHR ''.'') m
      in case fr of
           [] \<Rightarrow> map_option (\<lambda>ds. of_int (digits_val ds)) (digitpart ip)
         | _ # fp \<Rightarrow>
             (if ip = [] \<and> fp = [] then None
              else case (if ip = [] then Some [] else digitpart ip,
                         if fp = [] then Some [] else digitpart fp) of
                     (Some ids, Some fds) \<Rightarrow>
                       Some (of_int (digits_val ids)
                             + of_int (digits_val fds) / 10 ^ length fds)
                   | _ \<Rightarrow> None))"

definition decimal :: "string \<Rightarrow> rat option" where
  "decimal u =
     (case (mantissa_of (takeWhile (\<lambda>c. \<not> is_exp_mark c) u),
            exponent_of (dropWhile (\<lambda>c. \<not> is_exp_mark c) u)) of
        (Some m, Some e) \<Rightarrow> Some (m * pow10 e)
      | _ \<Rightarrow> None)"

text \<open>\<open>float(s)\<close>: the literal's exact value, correctly rounded; \<open>None\<close> is
  \<open>ValueError\<close>.\<close>

definition py_float :: "string \<Rightarrow> pyfloat option" where
  "py_float s =
     (let (neg, u) = sign_of (strip s); l = map to_lower u
      in if l = ''inf'' \<or> l = ''infinity'' then Some (if neg then NInf else PInf)
         else if l = ''nan'' then Some NaN
         else map_option (\<lambda>q. fl (if neg then - q else q)) (decimal u))"

text \<open>The float that a decimal literal of the Python source denotes.\<close>

definition literal :: "string \<Rightarrow> pyfloat" where
  "literal s = (case py_float s of Some x \<Rightarrow> x | None \<Rightarrow> NaN)"

section \<open>Statistics\<close>

text \<open>
  \<open>sum(xs)\<close> adds from the left, starting at the \<open>int\<close> 0, each addition rounded
  (Python 3.12 and later compensate the rounding errors of the partial sums instead).
\<close>

definition py_sum :: "pyfloat list \<Rightarrow> pyfloat" where
  "py_sum xs = foldl fadd (Fin 0) xs"

text \<open>\<open>max(xs)\<close> and \<open>min(xs)\<close> keep the first item unless a later one compares
  greater (smaller); the empty list raises \<open>ValueError\<close>.\<close>

definition py_max :: "pyfloat list \<Rightarrow> py_error + pyfloat" where
  "py_max xs =
     (case xs of
        [] \<Rightarrow> Inl ValueError
      | x # rest \<Rightarrow> Inr (foldl (\<lambda>m item. if flt m item then item else m) x rest))"

definition py_min :: "pyfloat list \<Rightarrow> py_error + pyfloat" where
  "py_min xs =
     (case xs of
        [] \<Rightarrow> Inl ValueError
      | x # rest \<Rightarrow> Inr (foldl (\<lambda>m item. if flt item m then item else m) x rest))"

text \<open>
  \<open>sorted(xs)\<close> on floats, as a stable insertion sort by \<open><\<close>. On a list without NaN
  every stable sort gives this result; where CPython puts a NaN depends on the
  internals of its sort and is not modelled.
\<close>

fun insert_sorted :: "pyfloat \<Rightarrow> pyfloat list \<Rightarrow> pyfloat list" where
  "insert_sorted x [] = [x]"
| "insert_sorted x (y # ys) = (if flt x y then x # y # ys else y # insert_sorted x ys)"

definition sorted_floats :: "pyfloat list \<Rightarrow> pyfloat list" where
  "sorted_floats xs = foldl (\<lambda>acc x. insert_sorted x acc) [] xs"

text \<open>\<open>statistics.median(data)\<close>.\<close>

definition median :: "pyfloat list \<Rightarrow> py_error + pyfloat" where
  "median xs =
     (let data = sorted_floats xs; n = length data
      in if n = 0 then Inl StatisticsError
         else if n mod 2 = 1 then Inr (data ! (n div 2))
         else let i = n div 2 in fdiv (fadd (data ! (i - 1)) (data ! i)) 2)"

text \<open>\<open>sum(xs) / len(xs)\<close>.\<close>

definition mean :: "pyfloat list \<Rightarrow> py_error + pyfloat" where
  "mean xs = fdiv (py_sum xs) (length xs)"

text \<open>
  The dictionaries with the keys \<open>avg\<close>, \<open>max\<close>, \<open>med\<close>, \<open>min\<close> that both programs build.
\<close>

record stats =
  avg :: pyfloat
  maxv :: pyfloat
  med :: pyfloat
  minv :: pyfloat

section \<open>The outside world\<close>

text \<open>
  What \<open>subprocess.run\<close> did: the process ran and left a return code, its standard
  output and its standard error, or the call raised an exception with a message.
\<close>

datatype proc = Completed int string string | Raised string

text \<open>What a program did, in order; \<open>'d\<close> is the data handed to the reporter.\<close>

datatype 'd effect =
  Print string
  | Save_to_json 'd string
  | Generate_boxplot 'd string
  | Sleep int

record common_args =
  output_path :: string
  graph :: string
  target :: "string option"

section \<open>pingstats.py\<close>

record ping_args = common_args +
  max_pings :: int
  delay :: int

definition run_ping :: "proc \<Rightarrow> string option \<times> string list" where
  "run_ping result =
     (case result of
        Completed returncode out err \<Rightarrow>
          if returncode = 0 then (Some out, [])
          else (None, [''Error running ping: '' @ err])
      | Raised e \<Rightarrow> (None, [''Exception running ping: '' @ e]))"

text \<open>The \<open>for part in parts\<close> loop; only \<open>ValueError\<close> is caught.\<close>

fun scan_ping_parts :: "string list \<Rightarrow> pyfloat list \<Rightarrow> py_error + pyfloat list" where
  "scan_ping_parts [] latencies = Inr latencies"
| "scan_ping_parts (part # rest) latencies =
     (if startswith part ''time='' then
        (case split_sep part (CHR ''='') of
           _ # v # _ \<Rightarrow>
             (case py_float v of
                Some latency \<Rightarrow> scan_ping_parts rest (latencies @ [latency])
              | None \<Rightarrow> scan_ping_parts rest latencies)
         | _ \<Rightarrow> Inl IndexError)
      else scan_ping_parts rest latencies)"

fun ping_lines :: "string list \<Rightarrow> pyfloat list \<Rightarrow> py_error + pyfloat list" where
  "ping_lines [] latencies = Inr latencies"
| "ping_lines (line # rest) latencies =
     (if contains line ''time='' then
        (case scan_ping_parts (split line) latencies of
           Inl e \<Rightarrow> Inl e
         | Inr latencies' \<Rightarrow> ping_lines rest latencies')
      else ping_lines rest latencies)"

text \<open>The dictionary literal, its entries evaluated in order.\<close>

definition make_stats :: "pyfloat list \<Rightarrow> py_error + stats" where
  "make_stats latencies =
     (case mean latencies of Inl e \<Rightarrow> Inl e | Inr a \<Rightarrow>
      case py_max latencies of Inl e \<Rightarrow> Inl e | Inr mx \<Rightarrow>
      case median latencies of Inl e \<Rightarrow> Inl e | Inr md \<Rightarrow>
      case py_min latencies of Inl e \<Rightarrow> Inl e | Inr mn \<Rightarrow>
        Inr \<lparr>avg = a, maxv = mx, med = md, minv = mn\<rparr>)"

definition parse_ping_output :: "string \<Rightarrow> py_error + stats option" where
  "parse_ping_output ping_output =
     (case ping_lines (splitlines ping_output) [] of
        Inl e \<Rightarrow> Inl e
      | Inr latencies \<Rightarrow>
          if latencies \<noteq> [] then map_sum id Some (make_stats latencies) else Inr None)"

text \<open>The list \<open>all_latencies\<close> after the \<open>for stats in stats_list\<close> loop.\<close>

definition all_latencies :: "stats list \<Rightarrow> pyfloat list" where
  "all_latencies stats_list = concat (map (\<lambda>s. [minv s, med s, avg s, maxv s]) stats_list)"

definition aggregate_ping_stats :: "stats list \<Rightarrow> py_error + stats" where
  "aggregate_ping_stats stats_list =
     (case mean (all_latencies stats_list) of Inl e \<Rightarrow> Inl e | Inr a \<Rightarrow>
      case py_max (all_latencies stats_list) of Inl e \<Rightarrow> Inl e | Inr mx \<Rightarrow>
      case median (all_latencies stats_list) of Inl e \<Rightarrow> Inl e | Inr md \<Rightarrow>
      case py_min (all_latencies stats_list) of Inl e \<Rightarrow> Inl e | Inr mn \<Rightarrow>
        Inr \<lparr>avg = round3 a, maxv = mx, med = md, minv = mn\<rparr>)"

text \<open>
  \<open>main\<close>, after the arguments are parsed: what it does, and the exception that ends it,
  if any. An empty string is false in a condition, as \<open>None\<close> is.
\<close>

definition ping_main :: "ping_args \<Rightarrow> proc \<Rightarrow> stats effect list \<times> py_error option" where
  "ping_main args result =
     (if target args = None \<or> target args = Some [] then ([Print ''Target is required.''], None)
      else
        (let (ping_output, msgs) = run_ping result in
         case ping_output of
           None \<Rightarrow> (map Print msgs, None)
         | Some out \<Rightarrow>
             if out = [] then (map Print msgs, None)
             else
               (case parse_ping_output out of
                  Inl e \<Rightarrow> (map Print msgs, Some e)
                | Inr None \<Rightarrow> (map Print msgs, None)
                | Inr (Some st) \<Rightarrow>
                    (map Print msgs
                       @ [Save_to_json st (output_path args), Generate_boxplot st (graph args)],
                     None))))"

section \<open>trstats.py\<close>

record tr_args = common_args +
  num_runs :: int
  run_delay :: int
  max_hops :: int
  test :: "string option"

definition run_traceroute :: "proc \<Rightarrow> string option \<times> string list" where
  "run_traceroute result =
     (case result of
        Completed returncode out err \<Rightarrow>
          if returncode = 0 then (Some out, [])
          else (None, [''Error running traceroute: '' @ err])
      | Raised e \<Rightarrow> (None, [''Exception running traceroute: '' @ e]))"

record hop_rec = stats +
  hop :: int
  hosts :: "(string \<times> string) list"

definition is_paren :: "string \<Rightarrow> bool" where
  "is_paren p = (startswith p ''('' \<and> endswith p '')'')"

text \<open>The \<open>while i < len(parts)\<close> loop of \<open>parse_traceroute_output\<close>.\<close>

function scan_parts ::
  "string list \<Rightarrow> nat \<Rightarrow> (string \<times> string) list \<Rightarrow> pyfloat list
     \<Rightarrow> (string \<times> string) list \<times> pyfloat list" where
  "scan_parts parts i hs latencies =
     (if i < length parts then
        (if is_paren (parts ! i) then scan_parts parts (i + 1) hs latencies
         else
           (case py_float (replace (parts ! i) ''ms'' []) of
              Some latency \<Rightarrow> scan_parts parts (i + 1) hs (latencies @ [latency])
            | None \<Rightarrow>
                (let hostname = parts ! i in
                 if i + 1 < length parts \<and> is_paren (parts ! (i + 1)) then
                   (let ip_address = parts ! (i + 1) in
                    scan_parts parts (i + 1 + 1)
                      (if (hostname, ip_address) \<in> set hs then hs
                       else hs @ [(hostname, ip_address)])
                      latencies)
                 else scan_parts parts (i + 1) hs latencies)))
      else (hs, latencies))"
  by pat_completeness auto
termination
  by (relation "measure (\<lambda>(parts, i, hs, latencies). length parts - i)") auto

declare scan_parts.simps [simp del]

text \<open>The hop dictionary built when \<open>latencies\<close> is not empty, its entries evaluated
  in the order of the literal.\<close>

definition make_hop ::
  "int \<Rightarrow> (string \<times> string) list \<Rightarrow> pyfloat list \<Rightarrow> py_error + hop_rec" where
  "make_hop hop_number hs latencies =
     (case mean latencies of Inl e \<Rightarrow> Inl e | Inr a \<Rightarrow>
      case py_max latencies of Inl e \<Rightarrow> Inl e | Inr mx \<Rightarrow>
      case median latencies of Inl e \<Rightarrow> Inl e | Inr md \<Rightarrow>
      case py_min latencies of Inl e \<Rightarrow> Inl e | Inr mn \<Rightarrow>
        Inr \<lparr>avg = a, maxv = mx, med = md, minv = mn, hop = hop_number, hosts = hs\<rparr>)"

text \<open>The body of the \<open>for line\<close> loop for a line that is not skipped: the hop it
  appends, if any.\<close>

definition parse_line :: "string \<Rightarrow> py_error + hop_rec option" where
  "parse_line line =
     (let parts = split line in
      case parts of
        [] \<Rightarrow> Inl IndexError
      | p0 # _ \<Rightarrow>
          (case py_int p0 of
             None \<Rightarrow> Inl ValueError
           | Some hop_number \<Rightarrow>
               (let (hs, latencies) = scan_parts parts 1 [] [] in
                if latencies \<noteq> [] then map_sum id Some (make_hop hop_number hs latencies)
                else Inr None)))"

definition skipped :: "string \<Rightarrow> bool" where
  "skipped line = (startswith line ''traceroute'' \<or> strip line = [])"

fun parse_lines :: "string list \<Rightarrow> hop_rec list \<Rightarrow> py_error + hop_rec list" where
  "parse_lines [] hops = Inr hops"
| "parse_lines (line # rest) hops =
     (if skipped line then parse_lines rest hops
      else (case parse_line line of
              Inl e \<Rightarrow> Inl e
            | Inr None \<Rightarrow> parse_lines rest hops
            | Inr (Some h) \<Rightarrow> parse_lines rest (hops @ [h])))"

definition parse_traceroute_output :: "string \<Rightarrow> py_error + hop_rec list" where
  "parse_traceroute_output traceroute_output = parse_lines (splitlines traceroute_output) []"

text \<open>
  The dictionary \<open>aggregated\<close>: its items in insertion order, the keys distinct. An item
  pools the values of one hop number.
\<close>

record pooled =
  p_hop :: int
  p_hosts :: "(string \<times> string) list"
  p_min :: "pyfloat list"
  p_max :: "pyfloat list"
  p_avg :: "pyfloat list"
  p_med :: "pyfloat list"

text \<open>The body of the \<open>for hop in hops\<close> loop.\<close>

definition add_hop :: "(int \<times> pooled) list \<Rightarrow> hop_rec \<Rightarrow> (int \<times> pooled) list" where
  "add_hop aggregated h =
     (let hop_number = hop h;
          aggregated' =
            (if map_of aggregated hop_number = None
             then aggregated @ [(hop_number,
                    \<lparr>p_hop = hop_number, p_hosts = hosts h,
                     p_min = [], p_max = [], p_avg = [], p_med = []\<rparr>)]
             else aggregated)
      in AList.map_entry hop_number
           (\<lambda>e. e\<lparr>p_min := p_min e @ [minv h], p_max := p_max e @ [maxv h],
                   p_avg := p_avg e @ [avg h], p_med := p_med e @ [med h]\<rparr>)
           aggregated')"

text \<open>The dictionary appended to \<open>final_stats\<close>, its entries evaluated in order.\<close>

definition final_hop :: "pooled \<Rightarrow> py_error + hop_rec" where
  "final_hop e =
     (case mean (p_avg e) of Inl x \<Rightarrow> Inl x | Inr a \<Rightarrow>
      case py_max (p_max e) of Inl x \<Rightarrow> Inl x | Inr mx \<Rightarrow>
      case median (p_med e) of Inl x \<Rightarrow> Inl x | Inr md \<Rightarrow>
      case py_min (p_min e) of Inl x \<Rightarrow> Inl x | Inr mn \<Rightarrow>
        Inr \<lparr>avg = round3 a, maxv = mx, med = md, minv = mn,
             hop = p_hop e, hosts = p_hosts e\<rparr>)"

fun final_loop ::
  "int list \<Rightarrow> (int \<times> pooled) list \<Rightarrow> hop_rec list \<Rightarrow> py_error + hop_rec list" where
  "final_loop [] aggregated final_stats = Inr final_stats"
| "final_loop (hop_number # rest) aggregated final_stats =
     (case map_of aggregated hop_number of
        None \<Rightarrow> Inl KeyError
      | Some e \<Rightarrow>
          (case final_hop e of
             Inl x \<Rightarrow> Inl x
           | Inr r \<Rightarrow> final_loop rest aggregated (final_stats @ [r])))"

text \<open>The dictionary \<open>aggregated\<close> after the two nested loops.\<close>

definition aggregated_of :: "hop_rec list list \<Rightarrow> (int \<times> pooled) list" where
  "aggregated_of hops_list = foldl (\<lambda>aggregated hops. foldl add_hop aggregated hops) [] hops_list"

definition aggregate_stats :: "hop_rec list list \<Rightarrow> py_error + hop_rec list" where
  "aggregate_stats hops_list =
     (let aggregated = aggregated_of hops_list
      in final_loop (sort (map fst aggregated)) aggregated [])"

text \<open>\<open>str(n)\<close> for \<open>n \<ge> 0\<close>, and \<open>os.path.join\<close> of two POSIX paths.\<close>

fun str_nat :: "nat \<Rightarrow> string" where
  "str_nat n =
     (if n < 10 then [char_of (48 + n)]
      else str_nat (n div 10) @ [char_of (48 + n mod 10)])"

definition path_join :: "string \<Rightarrow> string \<Rightarrow> string" where
  "path_join a b =
     (if startswith b ''/'' then b
      else if a = [] \<or> endswith a ''/'' then a @ b
      else a @ ''/'' @ b)"

text \<open>
  The loop over the fixture files \<open>tr_run-<i>.out\<close>; \<open>files\<close> maps the path of a
  readable file to its content.
\<close>

fun read_runs ::
  "string \<Rightarrow> (string \<Rightarrow> string option) \<Rightarrow> nat list \<Rightarrow> hop_rec list list
     \<Rightarrow> hop_rec list effect list
     \<Rightarrow> (hop_rec list list \<times> hop_rec list effect list) \<times> py_error option" where
  "read_runs dir files [] hops_list trace = ((hops_list, trace), None)"
| "read_runs dir files (i # rest) hops_list trace =
     (let file_path = path_join dir (''tr_run-'' @ str_nat i @ ''.out'') in
      case files file_path of
        Some traceroute_output \<Rightarrow>
          (case parse_traceroute_output traceroute_output of
             Inl e \<Rightarrow> ((hops_list, trace), Some e)
           | Inr hops \<Rightarrow> read_runs dir files rest (hops_list @ [hops]) trace)
      | None \<Rightarrow>
          read_runs dir files rest hops_list
            (trace @ [Print (''File '' @ file_path @ '' does not exist.'')]))"

text \<open>
  The loop over the live runs; \<open>results\<close> are the outcomes of the successive calls of
  \<open>traceroute\<close>. \<open>time.sleep\<close> raises \<open>ValueError\<close> on a negative delay.
\<close>

fun live_runs ::
  "int \<Rightarrow> proc list \<Rightarrow> hop_rec list list \<Rightarrow> hop_rec list effect list
     \<Rightarrow> (hop_rec list list \<times> hop_rec list effect list) \<times> py_error option" where
  "live_runs d [] hops_list trace = ((hops_list, trace), None)"
| "live_runs d (result # rest) hops_list trace =
     (let (traceroute_output, msgs) = run_traceroute result;
          trace' = trace @ map Print msgs;
          parsed =
            (case traceroute_output of
               None \<Rightarrow> Inr hops_list
             | Some out \<Rightarrow>
                 if out = [] then Inr hops_list
                 else map_sum id (\<lambda>hops. hops_list @ [hops]) (parse_traceroute_output out))
      in case parsed of
           Inl e \<Rightarrow> ((hops_list, trace'), Some e)
         | Inr hops_list' \<Rightarrow>
             if d < 0 then ((hops_list', trace'), Some ValueError)
             else live_runs d rest hops_list' (trace' @ [Sleep d]))"

text \<open>
  \<open>main\<close>, after the arguments are parsed. \<open>results i\<close> is the outcome of the call of
  \<open>traceroute\<close> in run \<open>i\<close> (from 0).
\<close>

definition tr_main ::
  "tr_args \<Rightarrow> (string \<Rightarrow> string option) \<Rightarrow> (nat \<Rightarrow> proc)
     \<Rightarrow> hop_rec list effect list \<times> py_error option" where
  "tr_main args files results =
     (let gathered =
            (case test args of
               Some dir \<Rightarrow>
                 if dir \<noteq> [] then Some (read_runs dir files [1 ..< nat (num_runs args + 1)] [] [])
                 else None
             | None \<Rightarrow> None);
          gathered' =
            (case gathered of
               Some g \<Rightarrow> Some g
             | None \<Rightarrow>
                 if target args = None \<or> target args = Some [] then None
                 else Some (live_runs (run_delay args)
                              (map results [0 ..< nat (num_runs args)]) [] []))
      in case gathered' of
           None \<Rightarrow> ([Print ''Target is required when not in test mode.''], None)
         | Some ((hops_list, trace), Some e) \<Rightarrow> (trace, Some e)
         | Some ((hops_list, trace), None) \<Rightarrow>
             (case aggregate_stats hops_list of
                Inl e \<Rightarrow> (trace, Some e)
              | Inr final_stats \<Rightarrow>
                  (trace @ [Save_to_json final_stats (output_path args),
                           Generate_boxplot final_stats (graph args)],
                   None)))"

section \<open>Notions used to state the claims\<close>

text \<open>
  The \<open>(hostname, ip)\<close> pairs that the scan of a line meets from position \<open>i\<close> on, in
  order and with repetitions: a token that is neither parenthesised nor a number,
  immediately followed by a parenthesised token.
\<close>

function host_pairs :: "string list \<Rightarrow> nat \<Rightarrow> (string \<times> string) list" where
  "host_pairs parts i =
     (if i < length parts then
        (if is_paren (parts ! i) then host_pairs parts (i + 1)
         else
           (case py_float (replace (parts ! i) ''ms'' []) of
              Some latency \<Rightarrow> host_pairs parts (i + 1)
            | None \<Rightarrow>
                if i + 1 < length parts \<and> is_paren (parts ! (i + 1))
                then (parts ! i, parts ! (i + 1)) # host_pairs parts (i + 1 + 1)
                else host_pairs parts (i + 1)))
      else [])"
  by pat_completeness auto
termination
  by (relation "measure (\<lambda>(parts, i). length parts - i)") auto

declare host_pairs.simps [simp del]

text \<open>A list without its repetitions: of equal items the first is kept.\<close>

definition keep_first :: "'a list \<Rightarrow> 'a list" where
  "keep_first xs = foldl (\<lambda>acc x. if x \<in> set acc then acc else acc @ [x]) [] xs"

text \<open>
  The value of a token \<open>time=...\<close>: what stands between its first \<open>=\<close> and the next
  one, or the end of the token.
\<close>

definition value_part :: "string \<Rightarrow> string" where
  "value_part part = takeWhile (\<lambda>c. c \<noteq> CHR ''='') (drop 5 part)"

text \<open>
  The samples of a ping output: of all whitespace-separated tokens of all lines, in
  order, those that start with \<open>time=\<close> and whose value \<open>float\<close> accepts.
\<close>

definition ping_samples :: "string \<Rightarrow> pyfloat list" where
  "ping_samples ping_output =
     List.map_filter
       (\<lambda>part. if startswith part ''time='' then py_float (value_part part) else None)
       (concat (map split (splitlines ping_output)))"

text \<open>
  The item that the hop records \<open>xs\<close> (all runs, in order) pool under the hop number
  \<open>n\<close>: hosts of the first record with that number, and the four lists of values of
  the records with that number.
\<close>

definition pooled_of :: "int \<Rightarrow> hop_rec list \<Rightarrow> pooled" where
  "pooled_of n xs =
     (let hs = filter (\<lambda>h. hop h = n) xs in
      \<lparr>p_hop = n, p_hosts = hosts (hd hs),
       p_min = map minv hs, p_max = map maxv hs, p_avg = map avg hs, p_med = map med hs\<rparr>)"


text \<open>Two runs: the first reports the hops 1 and 2, the second only hop 1.\<close>

definition two_runs :: "hop_rec list list" where
  "two_runs =
     [[\<lparr>avg = Fin 2, maxv = Fin 3, med = Fin 2, minv = Fin 1, hop = 1,
         hosts = [(''gw'', ''(10.0.0.1)'')]\<rparr>,
       \<lparr>avg = Fin 6, maxv = Fin 7, med = Fin 6, minv = Fin 5, hop = 2,
         hosts = [(''core'', ''(10.0.1.1)'')]\<rparr>],
      [\<lparr>avg = Fin 4, maxv = Fin 8, med = Fin 3, minv = Fin 2, hop = 1,
         hosts = [(''alt'', ''(10.0.0.2)'')]\<rparr>]]"

section \<open>Evaluation of powers of two\<close>

lemma pow2_add: "pow2 (a + b) = pow2 a * pow2 b"
proof -
  have "pow2 e = 2 powi e" for e
    by (simp add: pow2_def power_int_def field_simps)
  then show ?thesis by (simp add: power_int_add)
qed

lemma pow2_code [code]:
  "pow2 e = (if e = 0 then 1
             else if e < 0 then 1 / pow2 (- e)
             else if even e then (let h = pow2 (e div 2) in h * h)
             else 2 * pow2 (e - 1))"
proof -
  have neg: "pow2 e = 1 / pow2 (- e)" if "e < 0"
    using that by (simp add: pow2_def)
  have ev: "pow2 e = pow2 (e div 2) * pow2 (e div 2)" if "even e"
  proof -
    from that have "e = e div 2 + e div 2" by presburger
    then show ?thesis by (metis pow2_add)
  qed
  have od: "pow2 e = 2 * pow2 (e - 1)"
    using pow2_add [of 1 "e - 1"] by (simp add: pow2_def)
  have z: "pow2 0 = 1" by (simp add: pow2_def)
  show ?thesis
  proof (cases "e = 0")
    case True
    then show ?thesis using z by simp
  next
    case False
    then show ?thesis
      using neg ev od by (simp add: Let_def)
  qed
qed

subsection \<open>The statistics never fail on a list that is not empty\<close>

lemma length_insert_sorted [simp]: "length (insert_sorted x ys) = Suc (length ys)"
  by (induction ys) auto

lemma length_foldl_insert_sorted:
  "length (foldl (\<lambda>acc x. insert_sorted x acc) acc xs) = length acc + length xs"
  by (induction xs arbitrary: acc) auto

lemma length_sorted_floats [simp]: "length (sorted_floats xs) = length xs"
  by (simp add: sorted_floats_def length_foldl_insert_sorted)

lemma fdiv_Inr: "0 < n \<Longrightarrow> \<exists>v. fdiv x n = Inr v"
  by (simp add: fdiv_def)

lemma mean_Inr: "xs \<noteq> [] \<Longrightarrow> \<exists>v. mean xs = Inr v"
  by (simp add: mean_def fdiv_def)

lemma py_max_Inr: "xs \<noteq> [] \<Longrightarrow> \<exists>v. py_max xs = Inr v"
  by (cases xs) (simp_all add: py_max_def)

lemma py_min_Inr: "xs \<noteq> [] \<Longrightarrow> \<exists>v. py_min xs = Inr v"
  by (cases xs) (simp_all add: py_min_def)

lemma sorted_floats_Nil_iff [simp]: "sorted_floats xs = [] \<longleftrightarrow> xs = []"
  using length_sorted_floats [of xs] by (metis length_0_conv)

lemma median_Inr: "xs \<noteq> [] \<Longrightarrow> \<exists>v. median xs = Inr v"
  by (simp add: median_def Let_def fdiv_def)


lemma make_stats_Inr: "ls \<noteq> [] \<Longrightarrow> \<exists>r. make_stats ls = Inr r"
  using mean_Inr [of ls] py_max_Inr [of ls] median_Inr [of ls] py_min_Inr [of ls]
  by (auto simp: make_stats_def)

subsection \<open>Lines\<close>

lemma split_Nil_iff: "split s = [] \<longleftrightarrow> dropWhile isspace s = []"
  by (subst split.simps) (simp split: list.splits del: dropWhile_eq_Nil_conv)





subsection \<open>The host list of a hop\<close>

lemma foldl_keep_distinct:
  "distinct acc \<Longrightarrow> distinct (foldl (\<lambda>acc x. if x \<in> set acc then acc else acc @ [x]) acc xs)"
  by (induction xs arbitrary: acc) auto


lemma distinct_keep_first: "distinct (keep_first xs)"
  by (simp add: keep_first_def foldl_keep_distinct)


lemma scan_parts_hosts:
  "fst (scan_parts parts i hs ls)
   = foldl (\<lambda>acc x. if x \<in> set acc then acc else acc @ [x]) hs (host_pairs parts i)"
proof (induction parts i hs ls rule: scan_parts.induct)
  case (1 parts i hs latencies)
  show ?case
    apply (subst scan_parts.simps)
    apply (subst host_pairs.simps)
    using 1
    apply (auto simp: Let_def split: option.splits)
    done
qed


lemma parse_lines_origin:
  "parse_lines ls acc = Inr hops \<Longrightarrow> r \<in> set hops \<Longrightarrow>
   r \<in> set acc \<or> (\<exists>line \<in> set ls. \<not> skipped line \<and> parse_line line = Inr (Some r))"
proof (induction ls arbitrary: acc)
  case Nil
  then show ?case by simp
next
  case (Cons line rest)
  show ?case
  proof (cases "skipped line")
    case True
    then have "parse_lines rest acc = Inr hops" using Cons.prems by simp
    from Cons.IH [OF this Cons.prems(2)] show ?thesis by auto
  next
    case False
    show ?thesis
    proof (cases "parse_line line")
      case (Inl e)
      then show ?thesis using Cons.prems False by simp
    next
      case (Inr res)
      show ?thesis
      proof (cases res)
        case None
        then have "parse_lines rest acc = Inr hops" using Cons.prems False Inr by simp
        from Cons.IH [OF this Cons.prems(2)] show ?thesis by auto
      next
        case (Some x)
        then have "parse_lines rest (acc @ [x]) = Inr hops"
          using Cons.prems False Inr by simp
        from Cons.IH [OF this Cons.prems(2)]
        have "r \<in> set acc \<or> r = x
              \<or> (\<exists>line\<in>set rest. \<not> skipped line \<and> parse_line line = Inr (Some r))"
          by auto
        then show ?thesis using False Inr Some by auto
      qed
    qed
  qed
qed

lemma map_sum_Some_eq [simp]: "map_sum id Some x = Inr (Some r) \<longleftrightarrow> x = Inr r"
  by (cases x) auto

lemma map_sum_Some_neq [simp]: "map_sum id Some x \<noteq> Inr None"
  by (cases x) auto

lemma make_hop_hosts: "make_hop n hs ls = Inr r \<Longrightarrow> hosts r = hs \<and> hop r = n"
  by (auto simp: make_hop_def split: sum.splits)

lemma parse_line_hosts:
  assumes "parse_line line = Inr (Some r)"
  shows "hosts r = keep_first (host_pairs (split line) 1)"
proof -
  obtain hs ls where sc: "scan_parts (split line) 1 [] [] = (hs, ls)"
    by (cases "scan_parts (split line) 1 [] []") auto
  from assms sc obtain n where "make_hop n hs ls = Inr r"
    by (auto simp: parse_line_def Let_def
        split: list.splits option.splits if_splits sum.splits)
  then have "hosts r = hs" by (simp add: make_hop_hosts)
  moreover have "hs = keep_first (host_pairs (split line) 1)"
    using scan_parts_hosts [of "split line" 1 "[]" "[]"] sc
    by (simp only: keep_first_def fst_conv)
  ultimately show ?thesis by simp
qed

lemma repeated_host_eval:
  "parse_traceroute_output ''2  gw (10.0.0.1)  1.5 ms  gw (10.0.0.1)  2.5 ms  alt (10.0.0.2)  2 ms''
   = Inr [\<lparr>avg = Fin 2, maxv = Fin (5 / 2), med = Fin 2, minv = Fin (3 / 2), hop = 2,
            hosts = [(''gw'', ''(10.0.0.1)''), (''alt'', ''(10.0.0.2)'')]\<rparr>]"
  by code_simp

subsection \<open>The tokens of a ping line\<close>

lemma contains_iff_sublist: "contains s sub \<longleftrightarrow> sublist sub s"
  by (induction s) (auto simp: sublist_Cons_right)

lemma sublist_trans: "sublist xs ys \<Longrightarrow> sublist ys zs \<Longrightarrow> sublist xs zs"
  by (rule sublist_order.order_trans)

lemma split_tokens_sublist: "t \<in> set (split s) \<Longrightarrow> sublist t s"
proof (induction s rule: split.induct)
  case (1 s)
  show ?case
  proof (cases "dropWhile isspace s")
    case Nil
    then have "split s = []" by (simp only: split_Nil_iff)
    then show ?thesis using "1.prems" by simp
  next
    case (Cons c cs)
    then have sp: "split s = takeWhile (\<lambda>x. \<not> isspace x) (c # cs)
                     # split (dropWhile (\<lambda>x. \<not> isspace x) cs)"
      by (subst split.simps) simp
    have d: "sublist (c # cs) s"
      using Cons sublist_dropWhile [of isspace s] by simp
    from "1.prems" sp
    have "t = takeWhile (\<lambda>x. \<not> isspace x) (c # cs)
          \<or> t \<in> set (split (dropWhile (\<lambda>x. \<not> isspace x) cs))"
      by auto
    then show ?thesis
    proof
      assume "t = takeWhile (\<lambda>x. \<not> isspace x) (c # cs)"
      then have "sublist t (c # cs)"
        using sublist_takeWhile [of "\<lambda>x. \<not> isspace x" "c # cs"] by simp
      then show ?thesis using d by (rule sublist_trans)
    next
      assume "t \<in> set (split (dropWhile (\<lambda>x. \<not> isspace x) cs))"
      from "1.IH" [OF Cons this]
      have "sublist t (dropWhile (\<lambda>x. \<not> isspace x) cs)" .
      moreover have "sublist (dropWhile (\<lambda>x. \<not> isspace x) cs) cs"
        by (rule sublist_dropWhile)
      moreover have "sublist cs (c # cs)"
        using sublist_tl [of "c # cs"] by simp
      ultimately show ?thesis
        using d by (meson sublist_trans)
    qed
  qed
qed

lemma time_token_in_line:
  assumes "t \<in> set (split line)" and "startswith t ''time=''"
  shows "contains line ''time=''"
proof -
  from assms(2) have "sublist ''time='' t"
    unfolding startswith_def by (rule prefix_imp_sublist)
  then have "sublist ''time='' line"
    using split_tokens_sublist [OF assms(1)] by (rule sublist_trans)
  then show ?thesis by (simp only: contains_iff_sublist)
qed

lemma split_sep_hd:
  "\<exists>rest. split_sep s sep = takeWhile (\<lambda>c. c \<noteq> sep) s # rest"
  by (induction s) (auto split: list.splits)

lemma split_sep_time:
  assumes "startswith part ''time=''"
  shows "\<exists>rest. split_sep part (CHR ''='') = ''time'' # value_part part # rest"
proof -
  from assms obtain r where p: "part = ''time='' @ r"
    by (auto simp: startswith_def prefix_def)
  obtain rest where "split_sep r (CHR ''='') = takeWhile (\<lambda>c. c \<noteq> CHR ''='') r # rest"
    using split_sep_hd by blast
  then show ?thesis using p by (simp add: value_part_def)
qed

lemma scan_ping_parts_samples:
  "scan_ping_parts parts acc
   = Inr (acc @ List.map_filter
            (\<lambda>part. if startswith part ''time='' then py_float (value_part part) else None)
            parts)"
proof (induction parts arbitrary: acc)
  case Nil
  then show ?case by simp
next
  case (Cons part rest)
  show ?case
  proof (cases "startswith part ''time=''")
    case False
    then show ?thesis using Cons.IH [of acc] by simp
  next
    case True
    then obtain more where s: "split_sep part (CHR ''='') = ''time'' # value_part part # more"
      using split_sep_time by blast
    show ?thesis
    proof (cases "py_float (value_part part)")
      case None
      then show ?thesis using True s Cons.IH [of acc] by simp
    next
      case (Some v)
      then show ?thesis using True s Cons.IH [of "acc @ [v]"] by simp
    qed
  qed
qed

lemma no_time_no_samples:
  assumes "\<not> contains line ''time=''"
  shows "List.map_filter
           (\<lambda>part. if startswith part ''time='' then py_float (value_part part) else None)
           (split line) = []"
proof -
  have "\<forall>t \<in> set (split line). \<not> startswith t ''time=''"
    using assms time_token_in_line by blast
  then show ?thesis
    by (induction "split line") (auto simp: List.map_filter_def)
qed

lemma map_filter_append:
  "List.map_filter f (xs @ ys) = List.map_filter f xs @ List.map_filter f ys"
  by (simp add: List.map_filter_def)

lemma ping_lines_samples:
  "ping_lines ls acc
   = Inr (acc @ List.map_filter
            (\<lambda>part. if startswith part ''time='' then py_float (value_part part) else None)
            (concat (map split ls)))"
proof (induction ls arbitrary: acc)
  case Nil
  then show ?case by simp
next
  case (Cons line rest)
  show ?case
  proof (cases "contains line ''time=''")
    case True
    then show ?thesis
      by (simp add: scan_ping_parts_samples Cons.IH map_filter_append)
  next
    case False
    then show ?thesis
      using no_time_no_samples [OF False]
      by (simp add: Cons.IH map_filter_append)
  qed
qed

subsection \<open>The dictionary of pooled values\<close>

lemma foldl_foldl_concat:
  "foldl (\<lambda>acc ys. foldl f acc ys) acc xss = foldl f acc (concat xss)"
  by (induction xss arbitrary: acc) auto

lemma aggregated_of_concat: "aggregated_of hl = foldl add_hop [] (concat hl)"
  by (simp add: aggregated_of_def foldl_foldl_concat)

lemma map_fst_map_entry [simp]: "map fst (AList.map_entry k f al) = map fst al"
  by (induction al) auto

lemma map_fst_add_hop:
  "map fst (add_hop agg h)
   = (if hop h \<in> set (map fst agg) then map fst agg else map fst agg @ [hop h])"
  by (auto simp: add_hop_def Let_def map_of_eq_None_iff)

lemma map_of_add_hop_other:
  "n \<noteq> hop h \<Longrightarrow> map_of (add_hop agg h) n = map_of agg n"
  by (auto simp: add_hop_def Let_def map_of_map_entry map_add_def split: option.splits)

lemma map_of_add_hop_new:
  "map_of agg (hop h) = None \<Longrightarrow>
   map_of (add_hop agg h) (hop h)
   = Some \<lparr>p_hop = hop h, p_hosts = hosts h, p_min = [minv h], p_max = [maxv h],
           p_avg = [avg h], p_med = [med h]\<rparr>"
  by (simp add: add_hop_def Let_def map_of_map_entry map_add_def)

lemma map_of_add_hop_old:
  "map_of agg (hop h) = Some e \<Longrightarrow>
   map_of (add_hop agg h) (hop h)
   = Some (e\<lparr>p_min := p_min e @ [minv h], p_max := p_max e @ [maxv h],
             p_avg := p_avg e @ [avg h], p_med := p_med e @ [med h]\<rparr>)"
  by (simp add: add_hop_def Let_def map_of_map_entry)

lemma pooled_of_snoc_other:
  "n \<noteq> hop h \<Longrightarrow> pooled_of n (xs @ [h]) = pooled_of n xs"
  by (simp add: pooled_of_def)

lemma pooled_of_snoc_new:
  "hop h \<notin> hop ` set xs \<Longrightarrow>
   pooled_of (hop h) (xs @ [h])
   = \<lparr>p_hop = hop h, p_hosts = hosts h, p_min = [minv h], p_max = [maxv h],
      p_avg = [avg h], p_med = [med h]\<rparr>"
proof -
  assume "hop h \<notin> hop ` set xs"
  then have "\<forall>x \<in> set xs. hop x \<noteq> hop h"
    by (metis imageI)
  then have "filter (\<lambda>x. hop x = hop h) xs = []"
    by (simp add: filter_empty_conv)
  then show ?thesis by (simp add: pooled_of_def)
qed

lemma pooled_of_snoc_old:
  assumes "hop h \<in> hop ` set xs"
  shows "pooled_of (hop h) (xs @ [h])
   = (pooled_of (hop h) xs)\<lparr>p_min := p_min (pooled_of (hop h) xs) @ [minv h],
        p_max := p_max (pooled_of (hop h) xs) @ [maxv h],
        p_avg := p_avg (pooled_of (hop h) xs) @ [avg h],
        p_med := p_med (pooled_of (hop h) xs) @ [med h]\<rparr>"
proof -
  from assms have "filter (\<lambda>x. hop x = hop h) xs \<noteq> []"
    by (auto simp: filter_empty_conv)
  then show ?thesis by (simp add: pooled_of_def Let_def)
qed

lemma foldl_add_hop_invariant:
  "distinct (map fst (foldl add_hop [] xs))
   \<and> set (map fst (foldl add_hop [] xs)) = hop ` set xs
   \<and> (\<forall>n. map_of (foldl add_hop [] xs) n
           = (if n \<in> hop ` set xs then Some (pooled_of n xs) else None))"
proof (induction xs rule: rev_induct)
  case Nil
  then show ?case by simp
next
  case (snoc h xs)
  let ?agg = "foldl add_hop [] xs"
  from snoc have d: "distinct (map fst ?agg)"
    and s: "set (map fst ?agg) = hop ` set xs"
    and m: "\<And>n. map_of ?agg n = (if n \<in> hop ` set xs then Some (pooled_of n xs) else None)"
    by auto
  have f: "foldl add_hop [] (xs @ [h]) = add_hop ?agg h" by simp
  have 1: "distinct (map fst (add_hop ?agg h))"
    using d s by (auto simp: map_fst_add_hop)
  have 2: "set (map fst (add_hop ?agg h)) = hop ` set (xs @ [h])"
    using s by (auto simp: map_fst_add_hop)
  have 3: "map_of (add_hop ?agg h) n
           = (if n \<in> hop ` set (xs @ [h]) then Some (pooled_of n (xs @ [h])) else None)" for n
  proof (cases "n = hop h")
    case False
    then show ?thesis
      using m [of n] by (auto simp: map_of_add_hop_other pooled_of_snoc_other)
  next
    case True
    show ?thesis
    proof (cases "hop h \<in> hop ` set xs")
      case False
      then have "map_of ?agg (hop h) = None" using m [of "hop h"] by simp
      then show ?thesis
        using True False by (simp add: map_of_add_hop_new pooled_of_snoc_new)
    next
      case in_xs: True
      then have "map_of ?agg (hop h) = Some (pooled_of (hop h) xs)"
        using m [of "hop h"] by simp
      then show ?thesis
        using True in_xs by (simp add: map_of_add_hop_old pooled_of_snoc_old)
    qed
  qed
  show ?case
    unfolding f using 1 2 3 by blast
qed


lemma final_hop_total:
  assumes "p_avg e \<noteq> []" "p_max e \<noteq> []" "p_med e \<noteq> []" "p_min e \<noteq> []"
  shows "\<exists>r. final_hop e = Inr r"
  using mean_Inr [OF assms(1)] py_max_Inr [OF assms(2)] median_Inr [OF assms(3)]
    py_min_Inr [OF assms(4)]
  by (auto simp: final_hop_def)

lemma pooled_of_nonempty:
  assumes "n \<in> hop ` set xs"
  shows "p_avg (pooled_of n xs) \<noteq> [] \<and> p_max (pooled_of n xs) \<noteq> []
         \<and> p_med (pooled_of n xs) \<noteq> [] \<and> p_min (pooled_of n xs) \<noteq> []"
proof -
  from assms have "filter (\<lambda>h. hop h = n) xs \<noteq> []"
    by (auto simp: filter_empty_conv)
  then show ?thesis by (simp add: pooled_of_def Let_def)
qed

lemma final_loop_result:
  assumes "\<forall>k \<in> set ks. \<exists>e r. map_of agg k = Some e \<and> final_hop e = Inr r"
  shows "\<exists>rs. final_loop ks agg acc = Inr (acc @ rs) \<and> length rs = length ks
          \<and> (\<forall>i < length ks. \<exists>e. map_of agg (ks ! i) = Some e \<and> final_hop e = Inr (rs ! i))"
  using assms
proof (induction ks arbitrary: acc)
  case Nil
  then show ?case by simp
next
  case (Cons k ks)
  from Cons.prems obtain e r where e: "map_of agg k = Some e" "final_hop e = Inr r"
    by auto
  from Cons.prems have "\<forall>k \<in> set ks. \<exists>e r. map_of agg k = Some e \<and> final_hop e = Inr r"
    by simp
  from Cons.IH [OF this, of "acc @ [r]"] obtain rs where
    rs: "final_loop ks agg (acc @ [r]) = Inr (acc @ [r] @ rs)" "length rs = length ks"
      "\<forall>i < length ks. \<exists>e. map_of agg (ks ! i) = Some e \<and> final_hop e = Inr (rs ! i)"
    by auto
  have "final_loop (k # ks) agg acc = Inr (acc @ (r # rs))"
    using e rs(1) by simp
  moreover have "length (r # rs) = length (k # ks)" using rs(2) by simp
  moreover have "\<forall>i < length (k # ks).
      \<exists>e. map_of agg ((k # ks) ! i) = Some e \<and> final_hop e = Inr ((r # rs) ! i)"
  proof (intro allI impI)
    fix i assume "i < length (k # ks)"
    then show "\<exists>e. map_of agg ((k # ks) ! i) = Some e \<and> final_hop e = Inr ((r # rs) ! i)"
      using e rs(3) by (cases i) auto
  qed
  ultimately show ?case by blast
qed

lemma aggregate_stats_result:
  "\<exists>rs. aggregate_stats hl = Inr rs
     \<and> length rs = length (sorted_list_of_set (hop ` set (concat hl)))
     \<and> (\<forall>i < length rs.
          final_hop (pooled_of (sorted_list_of_set (hop ` set (concat hl)) ! i) (concat hl))
          = Inr (rs ! i))"
proof -
  let ?xs = "concat hl"
  let ?agg = "foldl add_hop [] ?xs"
  let ?ks = "sort (map fst ?agg)"
  from foldl_add_hop_invariant [of ?xs]
  have d: "distinct (map fst ?agg)"
    and s: "set (map fst ?agg) = hop ` set ?xs"
    and m: "\<And>n. map_of ?agg n = (if n \<in> hop ` set ?xs then Some (pooled_of n ?xs) else None)"
    by auto
  have ks: "?ks = sorted_list_of_set (hop ` set ?xs)"
    using d s by (metis sorted_list_of_set_sort_remdups distinct_remdups_id)
  have "\<forall>k \<in> set ?ks. \<exists>e r. map_of ?agg k = Some e \<and> final_hop e = Inr r"
  proof
    fix k assume "k \<in> set ?ks"
    then have k: "k \<in> hop ` set ?xs" using s by simp
    then have "map_of ?agg k = Some (pooled_of k ?xs)" using m [of k] by simp
    moreover have "\<exists>r. final_hop (pooled_of k ?xs) = Inr r"
      using pooled_of_nonempty [OF k] by (intro final_hop_total) simp_all
    ultimately show "\<exists>e r. map_of ?agg k = Some e \<and> final_hop e = Inr r" by blast
  qed
  from final_loop_result [OF this, of "[]"] obtain rs where
    rs: "final_loop ?ks ?agg [] = Inr rs" "length rs = length ?ks"
      "\<forall>i < length ?ks. \<exists>e. map_of ?agg (?ks ! i) = Some e \<and> final_hop e = Inr (rs ! i)"
    by auto
  have a: "aggregate_stats hl = Inr rs"
    using rs(1) by (simp add: aggregate_stats_def aggregated_of_concat Let_def)
  have "final_hop (pooled_of (?ks ! i) ?xs) = Inr (rs ! i)" if "i < length rs" for i
  proof -
    from that rs(2) have i: "i < length ?ks" by simp
    then have "?ks ! i \<in> set ?ks" by (rule nth_mem)
    then have "?ks ! i \<in> hop ` set ?xs" using s by simp
    then have "map_of ?agg (?ks ! i) = Some (pooled_of (?ks ! i) ?xs)"
      using m [of "?ks ! i"] by simp
    then show ?thesis using rs(3) i by auto
  qed
  then show ?thesis using a rs(2) unfolding ks by blast
qed


lemma two_runs_aggregated:
  "aggregate_stats two_runs
   = Inr [\<lparr>avg = Fin 3, maxv = Fin 8, med = Fin (5 / 2), minv = Fin 1, hop = 1,
            hosts = [(''gw'', ''(10.0.0.1)'')]\<rparr>,
          \<lparr>avg = Fin 6, maxv = Fin 7, med = Fin 6, minv = Fin 5, hop = 2,
            hosts = [(''core'', ''(10.0.1.1)'')]\<rparr>]"
  by code_simp

subsection \<open>Literals and sample runs, evaluated\<close>

lemma literal_15_234: "literal ''15.234'' = Fin (8575979590420267 / 562949953421312)"
  by code_simp

lemma literal_16_012: "literal ''16.012'' = Fin (281686082943189 / 17592186044416)"
  by code_simp

lemma literal_15_623: "literal ''15.623'' = Fin (8794967122301157 / 562949953421312)"
  by code_simp

lemma literal_15_623_up: "literal ''15.623000000000001'' = Fin (4397483561150579 / 281474976710656)"
  by code_simp

lemma literal_0_1: "literal ''0.1'' = Fin (3602879701896397 / 36028797018963968)"
  by code_simp

lemma literal_0_1_up: "literal ''0.10000000000000002'' = Fin (7205759403792795 / 72057594037927936)"
  by code_simp

lemmas literal_values =
  literal_15_234 literal_16_012 literal_15_623 literal_15_623_up literal_0_1 literal_0_1_up

lemma traceroute_line_eval:
  "parse_traceroute_output ''3  router.example.com (192.168.1.1)  15.234 ms  16.012 ms''
   = Inr [\<lparr>avg = Fin (4397483561150579 / 281474976710656),
            maxv = Fin (281686082943189 / 17592186044416),
            med = Fin (4397483561150579 / 281474976710656),
            minv = Fin (8575979590420267 / 562949953421312),
            hop = 3, hosts = [(''router.example.com'', ''(192.168.1.1)'')]\<rparr>]"
  by code_simp

lemma traceroute_line_scan:
  "scan_parts (split ''3  router.example.com (192.168.1.1)  15.234 ms  16.012 ms'') 1 [] []
   = ([(''router.example.com'', ''(192.168.1.1)'')],
      [Fin (8575979590420267 / 562949953421312), Fin (281686082943189 / 17592186044416)])"
  by code_simp

lemma ping_three_eval:
  "parse_ping_output (''seq=1 time=0.1 ms'' @ [CHR 0x0A] @ ''seq=2 time=0.1 ms'' @ [CHR 0x0A] @ ''seq=3 time=0.1 ms'')
   = Inr (Some \<lparr>avg = Fin (7205759403792795 / 72057594037927936),
                  maxv = Fin (3602879701896397 / 36028797018963968),
                  med = Fin (3602879701896397 / 36028797018963968),
                  minv = Fin (3602879701896397 / 36028797018963968)\<rparr>)"
  by code_simp

section \<open>The claims\<close>

text \<open>
  C1, as stated, fails in the last digit: the median and the mean of the two samples are
  \<open>(15.234 + 16.012) / 2\<close> in binary64, which is not the float \<open>15.623\<close>.
\<close>

theorem traceroute_line_med_not_15_623:
  "parse_traceroute_output ''3  router.example.com (192.168.1.1)  15.234 ms  16.012 ms''
   \<noteq> Inr [\<lparr>avg = literal ''15.623'', maxv = literal ''16.012'', med = literal ''15.623'',
             minv = literal ''15.234'', hop = 3,
             hosts = [(''router.example.com'', ''(192.168.1.1)'')]\<rparr>]"
  by (simp add: traceroute_line_eval literal_values)

text \<open>
  C1, amended: the line \<open>3  router.example.com (192.168.1.1)  15.234 ms  16.012 ms\<close>
  yields exactly one hop, numbered 3, with the one host pair and the samples
  \<open>[15.234, 16.012]\<close> (the \<open>ms\<close> tokens give neither a sample nor a host), so
  min \<open>15.234\<close>, max \<open>16.012\<close>, and median and mean both \<open>15.623000000000001\<close>.
\<close>

theorem traceroute_line_hop:
  "parse_traceroute_output ''3  router.example.com (192.168.1.1)  15.234 ms  16.012 ms''
   = Inr [\<lparr>avg = literal ''15.623000000000001'', maxv = literal ''16.012'',
            med = literal ''15.623000000000001'',
             minv = literal ''15.234'', hop = 3,
             hosts = [(''router.example.com'', ''(192.168.1.1)'')]\<rparr>]
  \<and> scan_parts (split ''3  router.example.com (192.168.1.1)  15.234 ms  16.012 ms'') 1 [] []
   = ([(''router.example.com'', ''(192.168.1.1)'')], [literal ''15.234'', literal ''16.012''])"
  by (simp only: traceroute_line_eval traceroute_line_scan literal_values)

text \<open>
  C4. Aggregating the two ping summaries \<open>{min: 1, med: 2, avg: 3, max: 4}\<close> and
  \<open>{min: 2, med: 3, avg: 4, max: 5}\<close> pools the eight values into
  \<open>[1, 2, 3, 4, 2, 3, 4, 5]\<close> and returns \<open>{avg: 3.0, max: 5, med: 3.0, min: 1}\<close>.
\<close>

theorem aggregate_ping_stats_two_summaries:
  "all_latencies [\<lparr>avg = Fin 3, maxv = Fin 4, med = Fin 2, minv = Fin 1\<rparr>,
        \<lparr>avg = Fin 4, maxv = Fin 5, med = Fin 3, minv = Fin 2\<rparr>]
     = [Fin 1, Fin 2, Fin 3, Fin 4, Fin 2, Fin 3, Fin 4, Fin 5]
   \<and> aggregate_ping_stats [\<lparr>avg = Fin 3, maxv = Fin 4, med = Fin 2, minv = Fin 1\<rparr>,
        \<lparr>avg = Fin 4, maxv = Fin 5, med = Fin 3, minv = Fin 2\<rparr>]
     = Inr \<lparr>avg = Fin 3, maxv = Fin 5, med = Fin 3, minv = Fin 1\<rparr>"
  by code_simp







text \<open>
  C9. The host list of every hop that \<open>parse_traceroute_output\<close> returns has no
  repeated pair, and its pairs are in the order in which the scan of the line first met
  them.
\<close>

theorem hosts_distinct_in_insertion_order:
  assumes "parse_traceroute_output text = Inr hops" and "r \<in> set hops"
  shows "distinct (hosts r)
         \<and> (\<exists>line \<in> set (splitlines text). hosts r = keep_first (host_pairs (split line) 1))"
proof -
  from assms obtain line where l: "line \<in> set (splitlines text)"
      and p: "parse_line line = Inr (Some r)"
    using parse_lines_origin [of "splitlines text" "[]" hops r]
    by (auto simp: parse_traceroute_output_def)
  from p have h: "hosts r = keep_first (host_pairs (split line) 1)"
    by (rule parse_line_hosts)
  then show ?thesis using l distinct_keep_first by force
qed

theorem hosts_distinct_in_insertion_order_witness:
  "distinct [(''gw'', ''(10.0.0.1)''), (''alt'', ''(10.0.0.2)'')]
   \<and> (\<exists>line \<in> set (splitlines
          ''2  gw (10.0.0.1)  1.5 ms  gw (10.0.0.1)  2.5 ms  alt (10.0.0.2)  2 ms'').
         [(''gw'', ''(10.0.0.1)''), (''alt'', ''(10.0.0.2)'')]
         = keep_first (host_pairs (split line) 1))"
  using hosts_distinct_in_insertion_order [OF repeated_host_eval, of
      "\<lparr>avg = Fin 2, maxv = Fin (5 / 2), med = Fin 2, minv = Fin (3 / 2), hop = 2,
            hosts = [(''gw'', ''(10.0.0.1)''), (''alt'', ''(10.0.0.2)'')]\<rparr>"]
  by simp

text \<open>
  C8, as stated, fails: a unit that is attached to the value is not cut off. In
  \<open>time=10.0ms\<close> the value is \<open>10.0ms\<close>, which \<open>float\<close> rejects, so the token gives no
  sample.
\<close>

theorem attached_unit_is_not_discarded:
  "parse_ping_output ''64 bytes from 10.0.0.1: icmp_seq=1 ttl=64 time=10.0ms'' = Inr None"
  by code_simp

text \<open>
  C8, amended: the samples are, in order, the values of the tokens that start with
  \<open>time=\<close> and whose value (the text up to the next \<open>=\<close> or the end of the token, unit
  included if one is attached) \<open>float\<close> accepts; every other token and every line without
  such a token contributes nothing, and the parse never raises.
\<close>

theorem parse_ping_output_samples:
  "ping_lines (splitlines ping_output) [] = Inr (ping_samples ping_output)
   \<and> parse_ping_output ping_output
     = (if ping_samples ping_output = [] then Inr None
        else map_sum id Some (make_stats (ping_samples ping_output)))
   \<and> (\<exists>res. parse_ping_output ping_output = Inr res)"
proof -
  have a: "ping_lines (splitlines ping_output) [] = Inr (ping_samples ping_output)"
    by (simp add: ping_lines_samples ping_samples_def)
  then have b: "parse_ping_output ping_output
     = (if ping_samples ping_output = [] then Inr None
        else map_sum id Some (make_stats (ping_samples ping_output)))"
    by (simp add: parse_ping_output_def)
  have "\<exists>res. parse_ping_output ping_output = Inr res"
  proof (cases "ping_samples ping_output = []")
    case True
    then show ?thesis using b by simp
  next
    case False
    then obtain st where "make_stats (ping_samples ping_output) = Inr st"
      using make_stats_Inr by blast
    then show ?thesis using b False by simp
  qed
  then show ?thesis using a b by blast
qed

theorem parse_ping_output_samples_witness:
  "ping_lines (splitlines ''seq=1 ttl=64 time=0.5 ms time=x'') [] = Inr [Fin (1 / 2)]"
proof -
  have "ping_samples ''seq=1 ttl=64 time=0.5 ms time=x'' = [Fin (1 / 2)]"
    by code_simp
  then show ?thesis
    using parse_ping_output_samples [of "''seq=1 ttl=64 time=0.5 ms time=x''"] by simp
qed



text \<open>
  C10. \<open>aggregate_stats\<close> never raises: it returns a list on every list of runs, the
  empty list on no runs, and every item of its dictionary holds four lists that are not
  empty, so no mean divides by zero.
\<close>

theorem aggregate_stats_total:
  "(\<exists>rs. aggregate_stats hops_list = Inr rs)
   \<and> aggregate_stats [] = Inr []
   \<and> (\<forall>e \<in> snd ` set (aggregated_of hops_list).
        p_min e \<noteq> [] \<and> p_max e \<noteq> [] \<and> p_avg e \<noteq> [] \<and> p_med e \<noteq> [])"
proof -
  have a: "\<exists>rs. aggregate_stats hops_list = Inr rs"
    using aggregate_stats_result [of hops_list] by blast
  have b: "aggregate_stats [] = Inr []"
    by (simp add: aggregate_stats_def aggregated_of_def)
  let ?xs = "concat hops_list"
  let ?agg = "foldl add_hop [] ?xs"
  from foldl_add_hop_invariant [of ?xs]
  have d: "distinct (map fst ?agg)"
    and s: "set (map fst ?agg) = hop ` set ?xs"
    and m: "\<And>n. map_of ?agg n = (if n \<in> hop ` set ?xs then Some (pooled_of n ?xs) else None)"
    by auto
  have "p_min e \<noteq> [] \<and> p_max e \<noteq> [] \<and> p_avg e \<noteq> [] \<and> p_med e \<noteq> []"
    if "e \<in> snd ` set (aggregated_of hops_list)" for e
  proof -
    from that obtain k where ke: "(k, e) \<in> set ?agg"
      by (auto simp: aggregated_of_concat)
    then have "map_of ?agg k = Some e" using d by simp
    moreover from ke have k: "k \<in> hop ` set ?xs" using s by force
    ultimately have "e = pooled_of k ?xs" using m [of k] by simp
    then show ?thesis using pooled_of_nonempty [OF k] by simp
  qed
  then show ?thesis using a b by blast
qed

theorem aggregate_stats_total_witness:
  "(\<exists>rs. aggregate_stats two_runs = Inr rs)
   \<and> p_min (snd (hd (aggregated_of two_runs))) \<noteq> []
   \<and> p_max (snd (hd (aggregated_of two_runs))) \<noteq> []
   \<and> p_avg (snd (hd (aggregated_of two_runs))) \<noteq> []
   \<and> p_med (snd (hd (aggregated_of two_runs))) \<noteq> []"
proof -
  have "aggregated_of two_runs \<noteq> []"
    by code_simp
  then have "snd (hd (aggregated_of two_runs)) \<in> snd ` set (aggregated_of two_runs)"
    by simp
  then show ?thesis
    using aggregate_stats_total [of two_runs] by blast
qed

end
